theory Spec2Isabelle
  imports Main "HOL-Library.Word"
begin

section \<open>Input translation of the render window (citra\_qt/bootmanager.cpp)\<close>

subsection \<open>Data\<close>

text \<open>
  \<open>KeyMap::HostDeviceKey\<close> is the pair \<open>{int key_code; int device_id}\<close> that every call of
  \<open>KeyMap::PressKey\<close>, \<open>KeyMap::ReleaseKey\<close> and \<open>KeyMap::SetKeyMapping\<close> in this file builds
  with a braced initialiser. No arithmetic is done on either field, so both are \<open>int\<close>.
\<close>

record HostDeviceKey =
  key_code :: int
  device_id :: int

text \<open>
  The calls the window makes into the key map, in the order they are made. The functions
  below return this list instead of performing the calls.
\<close>

datatype key_call = PressKey HostDeviceKey | ReleaseKey HostDeviceKey

text \<open>The SDL enumerations the file compares against, and the two SDL event structs it reads.\<close>

datatype SDL_GameControllerButton =
    SDL_CONTROLLER_BUTTON_A
  | SDL_CONTROLLER_BUTTON_B
  | SDL_CONTROLLER_BUTTON_X
  | SDL_CONTROLLER_BUTTON_Y
  | SDL_CONTROLLER_BUTTON_BACK
  | SDL_CONTROLLER_BUTTON_GUIDE
  | SDL_CONTROLLER_BUTTON_START
  | SDL_CONTROLLER_BUTTON_LEFTSTICK
  | SDL_CONTROLLER_BUTTON_RIGHTSTICK
  | SDL_CONTROLLER_BUTTON_LEFTSHOULDER
  | SDL_CONTROLLER_BUTTON_RIGHTSHOULDER
  | SDL_CONTROLLER_BUTTON_DPAD_UP
  | SDL_CONTROLLER_BUTTON_DPAD_DOWN
  | SDL_CONTROLLER_BUTTON_DPAD_LEFT
  | SDL_CONTROLLER_BUTTON_DPAD_RIGHT

datatype SDL_GameControllerAxis =
    SDL_CONTROLLER_AXIS_LEFTX
  | SDL_CONTROLLER_AXIS_LEFTY
  | SDL_CONTROLLER_AXIS_RIGHTX
  | SDL_CONTROLLER_AXIS_RIGHTY
  | SDL_CONTROLLER_AXIS_TRIGGERLEFT
  | SDL_CONTROLLER_AXIS_TRIGGERRIGHT

text \<open>\<open>Uint8 state\<close> of a button event; \<open>SDL_PRESSED\<close> is 1, anything else takes the else branch.\<close>

definition SDL_PRESSED :: "8 word" where
  "SDL_PRESSED = 1"

definition SDL_RELEASED :: "8 word" where
  "SDL_RELEASED = 0"

record SDL_ControllerButtonEvent =
  button :: SDL_GameControllerButton
  state :: "8 word"

text \<open>
  \<open>Sint16 value\<close> of an axis event: a 16-bit word read as two's complement. The field is
  named \<open>axis_value\<close> here, \<open>value\<close> being a reserved word of Isabelle.
\<close>

record SDL_ControllerAxisEvent =
  axis :: SDL_GameControllerAxis
  axis_value :: "16 word"

datatype SDL_Event =
    SDL_CONTROLLERBUTTONUP SDL_ControllerButtonEvent
  | SDL_CONTROLLERBUTTONDOWN SDL_ControllerButtonEvent
  | SDL_CONTROLLERAXISMOTION SDL_ControllerAxisEvent
  | SDL_OTHEREVENT

text \<open>
  Threads: the application (presentation) thread \<open>qApp->thread()\<close>, and the threads of
  \<open>EmuThread\<close> objects, named by a number that stands for the object's address.
\<close>

datatype thread = AppThread | EmuThreadOf nat

text \<open>
  The fields of \<open>GRenderWindow\<close> that the modelled functions read. \<open>emu_thread\<close> is a
  pointer: \<open>None\<close> is \<open>nullptr\<close>.
\<close>

record GRenderWindow =
  keyboard_id :: int
  emu_thread :: "nat option"
  gamepad_mappings :: "(SDL_GameControllerButton \<times> int) list"

text \<open>
  Build configuration: the three preprocessor conditions of the file.
  \<open>qt5\<close> is \<open>QT_VERSION > QT_VERSION_CHECK(5, 0, 0)\<close>.
\<close>

record build_config =
  qt5 :: bool
  qt_no_debug :: bool
  microprofile_enabled :: bool

text \<open>Calls on the graphics context and on its widget, in the order they are made.\<close>

datatype gl_call = makeCurrent | doneCurrent | moveToThread thread | swapBuffers

subsection \<open>Controller buttons and axes\<close>

text \<open>The table \<open>GamepadSetMappings\<close> pushes, in push order.\<close>

definition GamepadSetMappings :: "(SDL_GameControllerButton \<times> int) list" where
  "GamepadSetMappings =
     [(SDL_CONTROLLER_BUTTON_A, 65),
      (SDL_CONTROLLER_BUTTON_B, 83),
      (SDL_CONTROLLER_BUTTON_X, 90),
      (SDL_CONTROLLER_BUTTON_Y, 88),
      (SDL_CONTROLLER_BUTTON_START, 77),
      (SDL_CONTROLLER_BUTTON_BACK, 78),
      (SDL_CONTROLLER_BUTTON_DPAD_DOWN, 71),
      (SDL_CONTROLLER_BUTTON_DPAD_LEFT, 70),
      (SDL_CONTROLLER_BUTTON_DPAD_RIGHT, 72),
      (SDL_CONTROLLER_BUTTON_DPAD_UP, 84)]"

text \<open>
  \<open>gamepadButtonEvent\<close>: \<open>std::find_if\<close> returns the first entry whose button equals the
  event's; without one nothing is called.
\<close>

definition gamepadButtonEvent ::
  "GRenderWindow \<Rightarrow> SDL_ControllerButtonEvent \<Rightarrow> key_call list" where
  "gamepadButtonEvent w event =
     (case find (\<lambda>e. fst e = button event) (gamepad_mappings w) of
        None \<Rightarrow> []
      | Some it \<Rightarrow>
          (let keycode = snd it in
           if state event = SDL_PRESSED
           then [PressKey \<lparr>key_code = keycode, device_id = keyboard_id w\<rparr>]
           else [ReleaseKey \<lparr>key_code = keycode, device_id = keyboard_id w\<rparr>]))"

text \<open>
  \<open>gamepadAxisEvent\<close>: two independent \<open>if\<close> statements per axis, the negative direction
  first; the comparisons are on the signed 16-bit value.
\<close>

definition gamepadAxisEvent ::
  "GRenderWindow \<Rightarrow> SDL_ControllerAxisEvent \<Rightarrow> key_call list" where
  "gamepadAxisEvent w event =
     (if axis event = SDL_CONTROLLER_AXIS_LEFTX then
        [if sint (axis_value event) < - 8000
         then PressKey \<lparr>key_code = 16777234, device_id = keyboard_id w\<rparr>
         else ReleaseKey \<lparr>key_code = 16777234, device_id = keyboard_id w\<rparr>,
         if sint (axis_value event) > 8000
         then PressKey \<lparr>key_code = 16777236, device_id = keyboard_id w\<rparr>
         else ReleaseKey \<lparr>key_code = 16777236, device_id = keyboard_id w\<rparr>]
      else [])
     @
     (if axis event = SDL_CONTROLLER_AXIS_LEFTY then
        [if sint (axis_value event) < - 8000
         then PressKey \<lparr>key_code = 16777235, device_id = keyboard_id w\<rparr>
         else ReleaseKey \<lparr>key_code = 16777235, device_id = keyboard_id w\<rparr>,
         if sint (axis_value event) > 8000
         then PressKey \<lparr>key_code = 16777237, device_id = keyboard_id w\<rparr>
         else ReleaseKey \<lparr>key_code = 16777237, device_id = keyboard_id w\<rparr>]
      else [])"

text \<open>
  \<open>PollEvents\<close> drains the SDL queue; the queue is the list of events, oldest first.
\<close>

fun dispatch_event :: "GRenderWindow \<Rightarrow> SDL_Event \<Rightarrow> key_call list" where
  "dispatch_event w (SDL_CONTROLLERBUTTONUP cbutton) = gamepadButtonEvent w cbutton"
| "dispatch_event w (SDL_CONTROLLERBUTTONDOWN cbutton) = gamepadButtonEvent w cbutton"
| "dispatch_event w (SDL_CONTROLLERAXISMOTION caxis) = gamepadAxisEvent w caxis"
| "dispatch_event w SDL_OTHEREVENT = []"

definition PollEvents :: "GRenderWindow \<Rightarrow> SDL_Event list \<Rightarrow> key_call list" where
  "PollEvents w queue = concat (map (dispatch_event w) queue)"

text \<open>
  The samples of one axis, fed one event at a time; the result keeps the calls of each
  sample apart.
\<close>

definition feed_axis ::
  "GRenderWindow \<Rightarrow> SDL_GameControllerAxis \<Rightarrow> 16 word list \<Rightarrow> key_call list list" where
  "feed_axis w a vs = map (\<lambda>v. gamepadAxisEvent w \<lparr>axis = a, axis_value = v\<rparr>) vs"

text \<open>The device a call is tagged with.\<close>

fun call_device :: "key_call \<Rightarrow> int" where
  "call_device (PressKey k) = device_id k"
| "call_device (ReleaseKey k) = device_id k"

text \<open>The window right after its constructor, which allocates the keyboard's id only.\<close>

definition window0 :: GRenderWindow where
  "window0 = \<lparr>keyboard_id = 0, emu_thread = None, gamepad_mappings = GamepadSetMappings\<rparr>"

subsection \<open>Graphics context\<close>

text \<open>
  \<open>moveContext\<close>, called on thread \<open>cur\<close> (\<open>QThread::currentThread()\<close>): \<open>DoneCurrent\<close>
  first; the move itself is compiled for Qt 5 only.
\<close>

definition moveContext :: "build_config \<Rightarrow> GRenderWindow \<Rightarrow> thread \<Rightarrow> gl_call list" where
  "moveContext cfg w cur =
     doneCurrent #
     (if qt5 cfg then
        [moveToThread
           (case emu_thread w of
              Some e \<Rightarrow> if cur = AppThread then EmuThreadOf e else AppThread
            | None \<Rightarrow> AppThread)]
      else [])"

text \<open>\<open>SwapBuffers\<close>: the \<open>makeCurrent\<close> call is compiled unless \<open>QT_NO_DEBUG\<close> is defined.\<close>

definition SwapBuffers :: "build_config \<Rightarrow> gl_call list" where
  "SwapBuffers cfg = (if \<not> qt_no_debug cfg then [makeCurrent] else []) @ [swapBuffers]"

definition MakeCurrent :: "gl_call list" where
  "MakeCurrent = [makeCurrent]"

definition DoneCurrent :: "gl_call list" where
  "DoneCurrent = [doneCurrent]"

subsection \<open>Key map reload\<close>

text \<open>
  Modelled from the spec: \<open>KeyMap::ClearKeyMapping\<close> and \<open>KeyMap::SetKeyMapping\<close> live in
  core/frontend/key\_map.cpp, which is not among the sources. The spec's Key Mapping Table
  is a mapping whose keys are the pairs of physical code and device;
  \<open>clear(deviceId)\<close> removes all bindings of a device and \<open>setBinding\<close> inserts or
  overwrites one entry.
\<close>

type_synonym 't key_map = "HostDeviceKey \<rightharpoonup> 't"

definition ClearKeyMapping :: "int \<Rightarrow> 't key_map \<Rightarrow> 't key_map" where
  "ClearKeyMapping dev m = (\<lambda>k. if device_id k = dev then None else m k)"

definition SetKeyMapping :: "HostDeviceKey \<Rightarrow> 't \<Rightarrow> 't key_map \<Rightarrow> 't key_map" where
  "SetKeyMapping k target m = m(k \<mapsto> target)"

text \<open>
  The settings the reload reads. \<open>Settings::NativeInput::NUM_INPUTS\<close>,
  \<open>Settings::NativeInput::All\<close>, \<open>Settings::values.input_mappings\<close> and
  \<open>KeyMap::mapping_targets\<close> are declared outside this file, so they are parameters:
  \<open>All\<close> and \<open>mapping_targets\<close> are arrays of \<open>NUM_INPUTS\<close> entries.
\<close>

record ('v, 't) input_settings =
  NUM_INPUTS :: nat
  All :: "'v list"
  input_mappings :: "'v \<Rightarrow> int"
  mapping_targets :: "'t list"

text \<open>\<open>ReloadSetKeymaps\<close>: clear, then the \<open>for\<close> loop over \<open>i = 0 .. NUM_INPUTS - 1\<close>.\<close>

definition ReloadSetKeymaps ::
  "GRenderWindow \<Rightarrow> ('v, 't) input_settings \<Rightarrow> 't key_map \<Rightarrow> 't key_map" where
  "ReloadSetKeymaps w cfg m =
     fold (\<lambda>i. SetKeyMapping
                 \<lparr>key_code = input_mappings cfg (All cfg ! i), device_id = keyboard_id w\<rparr>
                 (mapping_targets cfg ! i))
          [0..<NUM_INPUTS cfg]
          (ClearKeyMapping (keyboard_id w) m)"

text \<open>The configured bindings, in configuration order: physical code and target.\<close>

definition configured_bindings :: "('v, 't) input_settings \<Rightarrow> (int \<times> 't) list" where
  "configured_bindings cfg = zip (map (input_mappings cfg) (All cfg)) (mapping_targets cfg)"

text \<open>The bindings a table holds for one device.\<close>

definition device_bindings :: "'t key_map \<Rightarrow> int \<Rightarrow> (int \<times> 't) set" where
  "device_bindings m dev = {(c, t). m \<lparr>key_code = c, device_id = dev\<rparr> = Some t}"

section \<open>The emulation thread (EmuThread::run)\<close>

subsection \<open>State\<close>

text \<open>
  What the thread does that another component can observe, in the order it happens: calls on
  the graphics context (through the render window), calls into the emulated machine
  (\<open>Core::System\<close>), the two Qt signals, the profiler hooks and the yield.
\<close>

datatype event =
    GL gl_call
  | MicroProfileOnThreadCreate
  | MicroProfileOnThreadExit
  | DebugModeLeft
  | DebugModeEntered
  | RunLoop
  | SingleStep
  | Shutdown
  | yieldCurrentThread

text \<open>
  The flags of \<open>EmuThread\<close> are written by the presentation thread while \<open>run\<close> executes, so
  \<open>run\<close> is a step function: one step is one statement of the source, and reads or writes
  at most one shared flag (the wait predicate, evaluated under the mutex, reads all three).
  The program counter names the statement by its line in bootmanager.cpp.
\<close>

datatype pc =
    L28_MakeCurrent
  | L30_MicroProfileOnThreadCreate
  | L32_stop_run_false
  | L37_was_active_false
  | L38_while
  | L39_if_running
  | L40_DebugModeLeft
  | L43_RunLoop
  | L45_read_running
  | L45_read_exec_step
  | L46_DebugModeEntered
  | L48_if_exec_step
  | L49_DebugModeLeft
  | L52_exec_step_false
  | L53_SingleStep
  | L54_DebugModeEntered
  | L55_yield
  | L57_was_active_false
  | L60_wait
  | L60_blocked
  | L65_Shutdown
  | L68_MicroProfileOnThreadExit
  | L71_moveContext
  | Returned

text \<open>
  The members of \<open>EmuThread\<close> (\<open>exec_step\<close>, \<open>running\<close>, \<open>stop_run\<close>, \<open>render_window\<close>), the
  local \<open>was_active\<close> of \<open>run\<close>, the program counter, the number that names this object
  (\<open>self\<close>; \<open>run\<close> executes on \<open>EmuThreadOf self\<close>), and the events so far, oldest first.
\<close>

record EmuThread =
  exec_step :: bool
  running :: bool
  stop_run :: bool
  render_window :: GRenderWindow
  self :: nat
  pc :: pc
  was_active :: bool
  calls :: "event list"

text \<open>The constructor: all three flags false; \<open>run\<close> has not executed a statement.\<close>

definition EmuThread_new :: "GRenderWindow \<Rightarrow> nat \<Rightarrow> EmuThread" where
  "EmuThread_new w n =
     \<lparr>exec_step = False, running = False, stop_run = False, render_window = w, self = n,
      pc = L28_MakeCurrent, was_active = False, calls = []\<rparr>"

definition emit :: "event \<Rightarrow> EmuThread \<Rightarrow> EmuThread" where
  "emit e s = s\<lparr>calls := calls s @ [e]\<rparr>"

definition goto :: "pc \<Rightarrow> EmuThread \<Rightarrow> EmuThread" where
  "goto l s = s\<lparr>pc := l\<rparr>"

subsection \<open>One statement of run\<close>

text \<open>
  \<open>running_cv.wait(lock, pred)\<close> is \<open>while (!pred()) wait(lock)\<close>: at \<open>L60_wait\<close> the
  predicate is evaluated with the mutex held; when it is false the thread releases the mutex
  and sleeps (\<open>L60_blocked\<close>), where it has no step of its own until it is woken.
\<close>

fun run_at :: "build_config \<Rightarrow> pc \<Rightarrow> EmuThread \<Rightarrow> EmuThread" where
  "run_at cfg L28_MakeCurrent s =
     goto L30_MicroProfileOnThreadCreate (s\<lparr>calls := calls s @ map GL MakeCurrent\<rparr>)"
| "run_at cfg L30_MicroProfileOnThreadCreate s =
     goto L32_stop_run_false (emit MicroProfileOnThreadCreate s)"
| "run_at cfg L32_stop_run_false s =
     goto L37_was_active_false (s\<lparr>stop_run := False\<rparr>)"
| "run_at cfg L37_was_active_false s =
     goto L38_while (s\<lparr>was_active := False\<rparr>)"
| "run_at cfg L38_while s =
     (if \<not> stop_run s then goto L39_if_running s else goto L65_Shutdown s)"
| "run_at cfg L39_if_running s =
     (if running s then goto L40_DebugModeLeft s else goto L48_if_exec_step s)"
| "run_at cfg L40_DebugModeLeft s =
     goto L43_RunLoop (if \<not> was_active s then emit DebugModeLeft s else s)"
| "run_at cfg L43_RunLoop s =
     goto L45_read_running (emit RunLoop s)"
| "run_at cfg L45_read_running s =
     (if running s then goto L46_DebugModeEntered (s\<lparr>was_active := True\<rparr>)
      else goto L45_read_exec_step s)"
| "run_at cfg L45_read_exec_step s =
     goto L46_DebugModeEntered (s\<lparr>was_active := exec_step s\<rparr>)"
| "run_at cfg L46_DebugModeEntered s =
     goto L38_while
       (if \<not> was_active s \<and> \<not> stop_run s then emit DebugModeEntered s else s)"
| "run_at cfg L48_if_exec_step s =
     (if exec_step s then goto L49_DebugModeLeft s else goto L60_wait s)"
| "run_at cfg L49_DebugModeLeft s =
     goto L52_exec_step_false (if \<not> was_active s then emit DebugModeLeft s else s)"
| "run_at cfg L52_exec_step_false s =
     goto L53_SingleStep (s\<lparr>exec_step := False\<rparr>)"
| "run_at cfg L53_SingleStep s =
     goto L54_DebugModeEntered (emit SingleStep s)"
| "run_at cfg L54_DebugModeEntered s =
     goto L55_yield (emit DebugModeEntered s)"
| "run_at cfg L55_yield s =
     goto L57_was_active_false (emit yieldCurrentThread s)"
| "run_at cfg L57_was_active_false s =
     goto L38_while (s\<lparr>was_active := False\<rparr>)"
| "run_at cfg L60_wait s =
     (if running s \<or> exec_step s \<or> stop_run s then goto L38_while s
      else goto L60_blocked s)"
| "run_at cfg L60_blocked s = s"
| "run_at cfg L65_Shutdown s =
     goto L68_MicroProfileOnThreadExit (emit Shutdown s)"
| "run_at cfg L68_MicroProfileOnThreadExit s =
     goto L71_moveContext
       (if microprofile_enabled cfg then emit MicroProfileOnThreadExit s else s)"
| "run_at cfg L71_moveContext s =
     goto Returned
       (s\<lparr>calls := calls s @
            map GL (moveContext cfg (render_window s) (EmuThreadOf (self s)))\<rparr>)"
| "run_at cfg Returned s = s"

definition run_step :: "build_config \<Rightarrow> EmuThread \<Rightarrow> EmuThread" where
  "run_step cfg s = run_at cfg (pc s) s"

subsection \<open>The presentation thread's requests\<close>

text \<open>
  Modelled from the spec: \<open>SetRunning\<close>, \<open>ExecStep\<close> and \<open>RequestStop\<close> are defined in
  citra\_qt/bootmanager.h, which is not among the sources. By the spec each sets its flag
  (\<open>requestSingleStep\<close> the step flag, \<open>requestStop\<close> the stop flag, \<open>setRunning(b)\<close> the
  running flag) and signals the condition variable, which wakes the thread when it sleeps in
  the wait; the woken thread evaluates the predicate again. A spurious wake does the same
  without writing a flag.
\<close>

datatype request = SetRunning bool | ExecStep | RequestStop | SpuriousWake

definition notify_all :: "EmuThread \<Rightarrow> EmuThread" where
  "notify_all s = (if pc s = L60_blocked then s\<lparr>pc := L60_wait\<rparr> else s)"

fun request_step :: "request \<Rightarrow> EmuThread \<Rightarrow> EmuThread" where
  "request_step (SetRunning b) s = notify_all (s\<lparr>running := b\<rparr>)"
| "request_step ExecStep s = notify_all (s\<lparr>exec_step := True\<rparr>)"
| "request_step RequestStop s = notify_all (s\<lparr>stop_run := True\<rparr>)"
| "request_step SpuriousWake s = notify_all s"

subsection \<open>Interleavings\<close>

text \<open>
  A schedule is any sequence of requests and statements of \<open>run\<close>; \<open>exec\<close> runs it from a
  state. A theorem about \<open>exec cfg sched\<close> for every \<open>sched\<close> is a theorem about every
  interleaving of the two threads.
\<close>

datatype action = Request request | Sched

fun step :: "build_config \<Rightarrow> action \<Rightarrow> EmuThread \<Rightarrow> EmuThread" where
  "step cfg (Request r) s = request_step r s"
| "step cfg Sched s = run_step cfg s"

definition exec :: "build_config \<Rightarrow> action list \<Rightarrow> EmuThread \<Rightarrow> EmuThread" where
  "exec cfg sched s = fold (step cfg) sched s"

text \<open>The notifications among the events, and what it means for them to alternate.\<close>

definition notifications :: "event list \<Rightarrow> event list" where
  "notifications es = filter (\<lambda>e. e = DebugModeLeft \<or> e = DebugModeEntered) es"

fun alternating :: "event list \<Rightarrow> bool" where
  "alternating (x # y # zs) = (x \<noteq> y \<and> alternating (y # zs))"
| "alternating _ = True"

text \<open>
  The transitions of the running flag that a schedule's \<open>setRunning\<close> calls make, from the
  flag's value \<open>r\<close> before the schedule.
\<close>

fun active_to_inactive :: "bool \<Rightarrow> action list \<Rightarrow> nat" where
  "active_to_inactive r [] = 0"
| "active_to_inactive r (Request (SetRunning b) # sched) =
     (if r \<and> \<not> b then 1 else 0) + active_to_inactive b sched"
| "active_to_inactive r (_ # sched) = active_to_inactive r sched"

fun inactive_to_active :: "bool \<Rightarrow> action list \<Rightarrow> nat" where
  "inactive_to_active r [] = 0"
| "inactive_to_active r (Request (SetRunning b) # sched) =
     (if \<not> r \<and> b then 1 else 0) + inactive_to_active b sched"
| "inactive_to_active r (_ # sched) = inactive_to_active r sched"

section \<open>Definitions used to state the properties\<close>

text \<open>
  The destination of a context migration in the spec's words: the scheduler thread when one
  is alive and the call comes from the presentation thread, the presentation thread in
  every other case.
\<close>

definition spec_destination :: "nat option \<Rightarrow> thread \<Rightarrow> thread" where
  "spec_destination scheduler caller =
     (if scheduler \<noteq> None \<and> caller = AppThread then EmuThreadOf (the scheduler)
      else AppThread)"

text \<open>The first \<open>n\<close> notifications of the sequence left, entered, left, entered, ...\<close>

fun alternation :: "nat \<Rightarrow> event list" where
  "alternation 0 = []"
| "alternation (Suc n) = alternation n @ [if even n then DebugModeLeft else DebugModeEntered]"

text \<open>
  What holds of the notifications at each statement of \<open>run\<close>: at the top of the loop
  \<open>was_active\<close> says whether the last notification was \<open>DebugModeLeft\<close> (an odd number of
  notifications so far), unless a stop was seen at line 46.
\<close>

fun notes_at :: "pc \<Rightarrow> EmuThread \<Rightarrow> bool" where
  "notes_at L28_MakeCurrent s = (notifications (calls s) = [])"
| "notes_at L30_MicroProfileOnThreadCreate s = (notifications (calls s) = [])"
| "notes_at L32_stop_run_false s = (notifications (calls s) = [])"
| "notes_at L37_was_active_false s = (notifications (calls s) = [])"
| "notes_at L38_while s =
     (stop_run s \<or> was_active s = odd (length (notifications (calls s))))"
| "notes_at L39_if_running s = (was_active s = odd (length (notifications (calls s))))"
| "notes_at L40_DebugModeLeft s = (was_active s = odd (length (notifications (calls s))))"
| "notes_at L48_if_exec_step s = (was_active s = odd (length (notifications (calls s))))"
| "notes_at L49_DebugModeLeft s = (was_active s = odd (length (notifications (calls s))))"
| "notes_at L60_wait s = (was_active s = odd (length (notifications (calls s))))"
| "notes_at L60_blocked s = (was_active s = odd (length (notifications (calls s))))"
| "notes_at L43_RunLoop s = odd (length (notifications (calls s)))"
| "notes_at L45_read_running s = odd (length (notifications (calls s)))"
| "notes_at L45_read_exec_step s = odd (length (notifications (calls s)))"
| "notes_at L46_DebugModeEntered s = odd (length (notifications (calls s)))"
| "notes_at L52_exec_step_false s = odd (length (notifications (calls s)))"
| "notes_at L53_SingleStep s = odd (length (notifications (calls s)))"
| "notes_at L54_DebugModeEntered s = odd (length (notifications (calls s)))"
| "notes_at L55_yield s = even (length (notifications (calls s)))"
| "notes_at L57_was_active_false s = even (length (notifications (calls s)))"
| "notes_at L65_Shutdown s = True"
| "notes_at L68_MicroProfileOnThreadExit s = True"
| "notes_at L71_moveContext s = True"
| "notes_at Returned s = True"

definition notes_inv :: "EmuThread \<Rightarrow> bool" where
  "notes_inv s =
     (notifications (calls s) = alternation (length (notifications (calls s)))
      \<and> notes_at (pc s) s)"

text \<open>A build with Qt 5, the debug runtime and the profiler.\<close>

definition cfg0 :: build_config where
  "cfg0 = \<lparr>qt5 = True, qt_no_debug = False, microprofile_enabled = True\<rparr>"

text \<open>
  A schedule: emulation is started and runs one iteration, is paused while the thread is
  between two iterations, and is resumed once the thread sleeps in the wait; the thread then
  runs one more iteration.
\<close>

definition missed_pause :: "action list" where
  "missed_pause =
     [Request (SetRunning True),
      Sched, Sched, Sched, Sched, Sched,
      Sched, Sched, Sched, Sched, Sched,
      Request (SetRunning False),
      Sched, Sched, Sched, Sched,
      Request (SetRunning True),
      Sched, Sched, Sched, Sched, Sched, Sched, Sched]"

text \<open>
  Two settings for the reload, over two logical inputs 0 and 1 with targets \<open>''A''\<close> and
  \<open>''B''\<close>: one gives them the physical codes 65 and 83, the other gives both the code 65.
  And a table that holds one binding of device 0 and one of device 7.
\<close>

definition two_inputs :: "(nat, string) input_settings" where
  "two_inputs =
     \<lparr>NUM_INPUTS = 2, All = [0, 1], input_mappings = (\<lambda>v. if v = 0 then 65 else 83),
      mapping_targets = [''A'', ''B'']\<rparr>"

definition same_code_inputs :: "(nat, string) input_settings" where
  "same_code_inputs =
     \<lparr>NUM_INPUTS = 2, All = [0, 1], input_mappings = (\<lambda>v. 65),
      mapping_targets = [''A'', ''B'']\<rparr>"

definition old_table :: "string key_map" where
  "old_table =
     [\<lparr>key_code = 70, device_id = 0\<rparr> \<mapsto> ''old'',
      \<lparr>key_code = 70, device_id = 7\<rparr> \<mapsto> ''other'']"

text \<open>
  Single steps. A request that has not been served yet is either the flag itself or, after
  line 52 has cleared the flag, the call of line 53 that is about to happen.
\<close>

definition step_credit :: "EmuThread \<Rightarrow> nat" where
  "step_credit s =
     (if exec_step s then 1 else 0) + (if pc s = L53_SingleStep then 1 else 0)"

definition steps_inv :: "nat \<Rightarrow> EmuThread \<Rightarrow> bool" where
  "steps_inv k s =
     (count_list (calls s) SingleStep + step_credit s \<le> k
      \<and> (pc s = L49_DebugModeLeft \<or> pc s = L52_exec_step_false \<longrightarrow> exec_step s))"

text \<open>
  Two single-step requests before the thread starts; the thread then runs until it sleeps
  in the wait.
\<close>

definition two_requests :: "action list" where
  "two_requests =
     [Request ExecStep, Request ExecStep,
      Sched, Sched, Sched, Sched, Sched, Sched, Sched, Sched, Sched, Sched, Sched, Sched, Sched,
      Sched, Sched, Sched, Sched]"

text \<open>The thread asleep in the wait: started with no request, after eight statements.\<close>

definition idle :: EmuThread where
  "idle = exec cfg0 [Sched, Sched, Sched, Sched, Sched, Sched, Sched, Sched]
            (EmuThread_new window0 1)"

text \<open>The predicate of the wait at line 60, and the two states of the thread inside it.\<close>

definition wait_predicate :: "EmuThread \<Rightarrow> bool" where
  "wait_predicate s = (running s \<or> exec_step s \<or> stop_run s)"

definition in_wait :: "EmuThread \<Rightarrow> bool" where
  "in_wait s = (pc s = L60_wait \<or> pc s = L60_blocked)"

definition blocked_inv :: "EmuThread \<Rightarrow> bool" where
  "blocked_inv s = (pc s = L60_blocked \<longrightarrow> \<not> wait_predicate s)"

text \<open>
  The exit of \<open>run\<close>. \<open>exit_calls\<close> are the events after \<open>Shutdown\<close>: the profiler hook when
  it is compiled, then \<open>moveContext\<close> called on the emulation thread, which releases the
  context and, in a Qt 5 build, moves it to the application thread.
\<close>

definition exit_calls :: "build_config \<Rightarrow> event list" where
  "exit_calls cfg =
     (if microprofile_enabled cfg then [MicroProfileOnThreadExit] else []) @
     GL doneCurrent # (if qt5 cfg then [GL (moveToThread AppThread)] else [])"

fun after_Shutdown :: "build_config \<Rightarrow> pc \<Rightarrow> event list option" where
  "after_Shutdown cfg L68_MicroProfileOnThreadExit = Some []"
| "after_Shutdown cfg L71_moveContext =
     Some (if microprofile_enabled cfg then [MicroProfileOnThreadExit] else [])"
| "after_Shutdown cfg Returned = Some (exit_calls cfg)"
| "after_Shutdown cfg _ = None"

definition exit_inv :: "build_config \<Rightarrow> EmuThread \<Rightarrow> bool" where
  "exit_inv cfg s =
     (case after_Shutdown cfg (pc s) of
        None \<Rightarrow> Shutdown \<notin> set (calls s)
      | Some t \<Rightarrow> (\<exists>pre. calls s = pre @ Shutdown # t \<and> Shutdown \<notin> set pre))"

text \<open>The statements of \<open>run\<close> after the loop, and how many of them are still to execute.\<close>

fun exit_rank :: "pc \<Rightarrow> nat" where
  "exit_rank L65_Shutdown = 3"
| "exit_rank L68_MicroProfileOnThreadExit = 2"
| "exit_rank L71_moveContext = 1"
| "exit_rank _ = 0"

definition exiting :: "pc \<Rightarrow> bool" where
  "exiting l = (l = L65_Shutdown \<or> l = L68_MicroProfileOnThreadExit \<or> l = L71_moveContext
                \<or> l = Returned)"

text \<open>
  The thread is started, reaches the loop test, and a stop is requested; the next statement
  is the loop test, which leaves the loop.
\<close>

definition stop_schedule :: "action list" where
  "stop_schedule = [Sched, Sched, Sched, Sched, Request RequestStop, Sched]"

definition at_exit :: EmuThread where
  "at_exit = exec cfg0 stop_schedule (EmuThread_new window0 1)"

text \<open>
  The thread is started and executes the reset of line 32; then a stop is requested; the
  thread runs on until \<open>run\<close> returns.
\<close>

definition late_stop :: "action list" where
  "late_stop =
     [Sched, Sched, Sched, Request RequestStop, Sched, Sched, Sched, Sched, Sched]"

text \<open>A build where the condition of line 127 is false (Qt up to 5.0.0).\<close>

definition cfg_qt4 :: build_config where
  "cfg_qt4 = \<lparr>qt5 = False, qt_no_debug = False, microprofile_enabled = True\<rparr>"

text \<open>
  How many statements the thread executes from a statement of the loop (or before it) until
  it sleeps in the wait, when no flag is set and none is written meanwhile.
\<close>

fun steps_to_block :: "pc \<Rightarrow> nat" where
  "steps_to_block L28_MakeCurrent = 8"
| "steps_to_block L30_MicroProfileOnThreadCreate = 7"
| "steps_to_block L32_stop_run_false = 6"
| "steps_to_block L37_was_active_false = 5"
| "steps_to_block L38_while = 4"
| "steps_to_block L39_if_running = 3"
| "steps_to_block L40_DebugModeLeft = 9"
| "steps_to_block L43_RunLoop = 8"
| "steps_to_block L45_read_running = 7"
| "steps_to_block L45_read_exec_step = 6"
| "steps_to_block L46_DebugModeEntered = 5"
| "steps_to_block L48_if_exec_step = 2"
| "steps_to_block L49_DebugModeLeft = 10"
| "steps_to_block L52_exec_step_false = 9"
| "steps_to_block L53_SingleStep = 8"
| "steps_to_block L54_DebugModeEntered = 7"
| "steps_to_block L55_yield = 6"
| "steps_to_block L57_was_active_false = 5"
| "steps_to_block L60_wait = 1"
| "steps_to_block _ = 0"

text \<open>
  Emulation is started, the thread is about to call \<open>RunLoop\<close>, and emulation is paused.
\<close>

definition paused_in_RunLoop :: EmuThread where
  "paused_in_RunLoop =
     exec cfg0 [Request (SetRunning True), Sched, Sched, Sched, Sched, Sched, Sched, Sched,
                Request (SetRunning False)] (EmuThread_new window0 1)"

section \<open>Evaluation of schedules\<close>

lemmas run_eval = EmuThread_new_def run_step_def emit_def goto_def notify_all_def
  MakeCurrent_def moveContext_def cfg0_def window0_def

lemma exec_Nil [simp]: "exec cfg [] s = s"
  by (simp add: exec_def)

lemma exec_Cons [simp]: "exec cfg (a # sched) s = exec cfg sched (step cfg a s)"
  by (simp add: exec_def)

lemma exec_append: "exec cfg (xs @ ys) s = exec cfg ys (exec cfg xs s)"
  by (simp add: exec_def)


section \<open>Axis motion and controller buttons\<close>

text \<open>
  C1 (as claimed): feeding the samples 0, -9000, -9000, 0, 9000 of one axis yields release of
  the negative code, press of the negative code, no event, release of the negative code,
  press of the positive code. The code keeps no state per axis: the third sample, equal to
  the second, makes the same two calls again, and every sample makes two calls.
\<close>

theorem axis_repeat_counterexample:
  "feed_axis window0 SDL_CONTROLLER_AXIS_LEFTX [0, - 9000, - 9000, 0, 9000] ! 2 =
     [PressKey \<lparr>key_code = 16777234, device_id = 0\<rparr>,
      ReleaseKey \<lparr>key_code = 16777236, device_id = 0\<rparr>]
   \<and> feed_axis window0 SDL_CONTROLLER_AXIS_LEFTX [0, - 9000, - 9000, 0, 9000] \<noteq>
     [[ReleaseKey \<lparr>key_code = 16777234, device_id = 0\<rparr>],
      [PressKey \<lparr>key_code = 16777234, device_id = 0\<rparr>],
      [],
      [ReleaseKey \<lparr>key_code = 16777234, device_id = 0\<rparr>],
      [PressKey \<lparr>key_code = 16777236, device_id = 0\<rparr>]]"
  by (simp add: feed_axis_def gamepadAxisEvent_def window0_def)

text \<open>
  C1 (amended): every sample of the left X axis (left Y axis) makes exactly two calls, the
  negative code's first and the positive code's second, each a press when the value is
  beyond the threshold of 8000 on its side and a release otherwise, whatever the samples
  before it were; the five samples yield the five pairs below.
\<close>

theorem gamepadAxisEvent_stateless:
  "gamepadAxisEvent w \<lparr>axis = SDL_CONTROLLER_AXIS_LEFTX, axis_value = v\<rparr> =
     [(if sint v < - 8000 then PressKey else ReleaseKey)
        \<lparr>key_code = 16777234, device_id = keyboard_id w\<rparr>,
      (if 8000 < sint v then PressKey else ReleaseKey)
        \<lparr>key_code = 16777236, device_id = keyboard_id w\<rparr>]
   \<and> gamepadAxisEvent w \<lparr>axis = SDL_CONTROLLER_AXIS_LEFTY, axis_value = v\<rparr> =
     [(if sint v < - 8000 then PressKey else ReleaseKey)
        \<lparr>key_code = 16777235, device_id = keyboard_id w\<rparr>,
      (if 8000 < sint v then PressKey else ReleaseKey)
        \<lparr>key_code = 16777237, device_id = keyboard_id w\<rparr>]
   \<and> feed_axis w SDL_CONTROLLER_AXIS_LEFTX [0, - 9000, - 9000, 0, 9000] =
     [[ReleaseKey \<lparr>key_code = 16777234, device_id = keyboard_id w\<rparr>,
       ReleaseKey \<lparr>key_code = 16777236, device_id = keyboard_id w\<rparr>],
      [PressKey \<lparr>key_code = 16777234, device_id = keyboard_id w\<rparr>,
       ReleaseKey \<lparr>key_code = 16777236, device_id = keyboard_id w\<rparr>],
      [PressKey \<lparr>key_code = 16777234, device_id = keyboard_id w\<rparr>,
       ReleaseKey \<lparr>key_code = 16777236, device_id = keyboard_id w\<rparr>],
      [ReleaseKey \<lparr>key_code = 16777234, device_id = keyboard_id w\<rparr>,
       ReleaseKey \<lparr>key_code = 16777236, device_id = keyboard_id w\<rparr>],
      [ReleaseKey \<lparr>key_code = 16777234, device_id = keyboard_id w\<rparr>,
       PressKey \<lparr>key_code = 16777236, device_id = keyboard_id w\<rparr>]]"
  by (simp add: feed_axis_def gamepadAxisEvent_def)

text \<open>
  C2 (as claimed): a mapped controller button is forwarded with the controller's own device
  id, distinct from the keyboard's. The window has one device id, \<open>keyboard_id\<close>, and the
  button's key is forwarded with it.
\<close>

theorem button_device_counterexample:
  "map call_device
     (gamepadButtonEvent window0
        \<lparr>button = SDL_CONTROLLER_BUTTON_A, state = SDL_PRESSED\<rparr>) = [keyboard_id window0]
   \<and> gamepadButtonEvent window0 \<lparr>button = SDL_CONTROLLER_BUTTON_A, state = SDL_PRESSED\<rparr> =
     [PressKey \<lparr>key_code = 65, device_id = keyboard_id window0\<rparr>]"
  by (simp add: gamepadButtonEvent_def window0_def GamepadSetMappings_def)

text \<open>
  C2 (amended): a button event whose button has an entry in the table makes exactly one call,
  a press when the state is \<open>SDL_PRESSED\<close> and a release otherwise, of the key code of the
  first such entry, tagged with the keyboard's device id.
\<close>

theorem gamepadButtonEvent_keyboard_id:
  assumes "find (\<lambda>e. fst e = button event) (gamepad_mappings w) = Some (b, keycode)"
  shows "gamepadButtonEvent w event =
           [(if state event = SDL_PRESSED then PressKey else ReleaseKey)
              \<lparr>key_code = keycode, device_id = keyboard_id w\<rparr>]
         \<and> map call_device (gamepadButtonEvent w event) = [keyboard_id w]"
  using assms by (simp add: gamepadButtonEvent_def)

theorem gamepadButtonEvent_keyboard_id_witness:
  "find (\<lambda>e. fst e = button \<lparr>button = SDL_CONTROLLER_BUTTON_DPAD_UP, state = SDL_RELEASED\<rparr>)
     (gamepad_mappings window0) = Some (SDL_CONTROLLER_BUTTON_DPAD_UP, 84)
   \<and> gamepadButtonEvent window0
       \<lparr>button = SDL_CONTROLLER_BUTTON_DPAD_UP, state = SDL_RELEASED\<rparr> =
       [ReleaseKey \<lparr>key_code = 84, device_id = 0\<rparr>]"
proof -
  have h: "find (\<lambda>e. fst e =
               button \<lparr>button = SDL_CONTROLLER_BUTTON_DPAD_UP, state = SDL_RELEASED\<rparr>)
             (gamepad_mappings window0) = Some (SDL_CONTROLLER_BUTTON_DPAD_UP, 84)"
    by (simp add: window0_def GamepadSetMappings_def)
  from gamepadButtonEvent_keyboard_id [OF h] show ?thesis
    using h by (simp add: SDL_PRESSED_def SDL_RELEASED_def window0_def)
qed

section \<open>Graphics context\<close>

text \<open>
  C5 (as claimed): every context migration releases the context first and then moves it, to
  the scheduler thread when one is alive and the call comes from the presentation thread,
  to the presentation thread in every other case. The move is compiled only where
  \<open>QT_VERSION > QT_VERSION_CHECK(5, 0, 0)\<close>; in any other build \<open>moveContext\<close> releases
  the context and moves it nowhere.
\<close>

theorem moveContext_no_move_counterexample:
  "moveContext cfg_qt4 (window0\<lparr>emu_thread := Some 1\<rparr>) AppThread = [doneCurrent]
   \<and> moveContext cfg_qt4 (window0\<lparr>emu_thread := Some 1\<rparr>) (EmuThreadOf 1) = [doneCurrent]
   \<and> moveContext cfg_qt4 window0 AppThread = [doneCurrent]"
  by (simp add: moveContext_def cfg_qt4_def window0_def)

text \<open>
  C5 (amended): every \<open>moveContext\<close> releases the context on the calling thread first and
  acquires nothing. In a build with \<open>QT_VERSION > QT_VERSION_CHECK(5, 0, 0)\<close> it then moves
  the context to the destination the spec describes, which depends on the window's
  \<open>emu_thread\<close> and on the calling thread only; in any other build the release is all it
  does.
\<close>

theorem moveContext_release_then_destination:
  "moveContext cfg w cur =
     doneCurrent #
     (if qt5 cfg then [moveToThread (spec_destination (emu_thread w) cur)] else [])
   \<and> hd (moveContext cfg w cur) = doneCurrent
   \<and> makeCurrent \<notin> set (moveContext cfg w cur)"
  by (auto simp: moveContext_def spec_destination_def split: option.splits)

theorem moveContext_release_then_destination_witness:
  "moveContext cfg0 (window0\<lparr>emu_thread := Some 1\<rparr>) AppThread =
       [doneCurrent, moveToThread (EmuThreadOf 1)]
   \<and> moveContext cfg0 (window0\<lparr>emu_thread := Some 1\<rparr>) (EmuThreadOf 1) =
       [doneCurrent, moveToThread AppThread]
   \<and> moveContext cfg0 window0 AppThread = [doneCurrent, moveToThread AppThread]
   \<and> moveContext cfg_qt4 (window0\<lparr>emu_thread := Some 1\<rparr>) AppThread = [doneCurrent]"
  using moveContext_release_then_destination [of cfg0 "window0\<lparr>emu_thread := Some 1\<rparr>" AppThread]
        moveContext_release_then_destination
          [of cfg0 "window0\<lparr>emu_thread := Some 1\<rparr>" "EmuThreadOf 1"]
        moveContext_release_then_destination [of cfg0 window0 AppThread]
        moveContext_release_then_destination
          [of cfg_qt4 "window0\<lparr>emu_thread := Some 1\<rparr>" AppThread]
  by (simp add: spec_destination_def window0_def cfg0_def cfg_qt4_def)

text \<open>
  C6 (as claimed): every buffer swap makes the context current first, unconditionally. In a
  build with \<open>QT_NO_DEBUG\<close> defined the swap is the only call.
\<close>

theorem SwapBuffers_release_build_counterexample:
  "makeCurrent \<notin> set (SwapBuffers \<lparr>qt5 = True, qt_no_debug = True, microprofile_enabled = False\<rparr>)
   \<and> SwapBuffers \<lparr>qt5 = True, qt_no_debug = True, microprofile_enabled = False\<rparr> = [swapBuffers]"
  by (simp add: SwapBuffers_def)

text \<open>
  C6 (amended): a buffer swap makes the context current on the calling thread right before
  the swap when \<open>QT_NO_DEBUG\<close> is not defined, and only swaps when it is defined.
\<close>

theorem SwapBuffers_calls:
  "SwapBuffers cfg = (if qt_no_debug cfg then [swapBuffers] else [makeCurrent, swapBuffers])"
  by (simp add: SwapBuffers_def)

section \<open>Key map reload\<close>

lemma fold_SetKeyMapping:
  "fold (\<lambda>i. SetKeyMapping (key i) (tgt i)) js m =
     m ++ map_of (rev (map (\<lambda>i. (key i, tgt i)) js))"
proof (induction js arbitrary: m)
  case Nil
  show ?case by simp
next
  case (Cons j js)
  have upd: "SetKeyMapping (key j) (tgt j) m = m ++ map_of [(key j, tgt j)]"
    by (simp add: SetKeyMapping_def)
  have "fold (\<lambda>i. SetKeyMapping (key i) (tgt i)) (j # js) m =
          (m ++ map_of [(key j, tgt j)]) ++ map_of (rev (map (\<lambda>i. (key i, tgt i)) js))"
    using Cons.IH [of "SetKeyMapping (key j) (tgt j) m"] by (simp only: fold_Cons o_apply upd)
  also have "\<dots> = m ++ map_of (rev (map (\<lambda>i. (key i, tgt i)) (j # js)))"
    by (simp only: list.map rev.simps map_of_append map_add_assoc)
  finally show ?case .
qed

lemma map_of_tagged:
  "map_of (map (\<lambda>(c, t). (\<lparr>key_code = c, device_id = dev\<rparr>, t)) bs) k =
     (if device_id k = dev then map_of bs (key_code k) else None)"
  by (induction bs) (auto split: if_splits)

lemma loop_bindings:
  assumes "length xs = n" and "length ts = n"
  shows "map (\<lambda>i. (\<lparr>key_code = f (xs ! i), device_id = dev\<rparr>, ts ! i)) [0..<n] =
         map (\<lambda>(c, t). (\<lparr>key_code = c, device_id = dev\<rparr>, t)) (zip (map f xs) ts)"
  using assms by (auto simp: list_eq_iff_nth_eq)

lemma ReloadSetKeymaps_lookup:
  assumes "length (All cfg) = NUM_INPUTS cfg"
    and "length (mapping_targets cfg) = NUM_INPUTS cfg"
  shows "ReloadSetKeymaps w cfg m k =
           (if device_id k = keyboard_id w
            then map_of (rev (configured_bindings cfg)) (key_code k)
            else m k)"
proof -
  let ?tag = "\<lambda>(c, t). (\<lparr>key_code = c, device_id = keyboard_id w\<rparr>, t)"
  have "ReloadSetKeymaps w cfg m =
          ClearKeyMapping (keyboard_id w) m ++
          map_of (map ?tag (rev (configured_bindings cfg)))"
    unfolding ReloadSetKeymaps_def fold_SetKeyMapping
    by (simp add: loop_bindings [OF assms] configured_bindings_def rev_map)
  then show ?thesis
    by (simp add: map_of_tagged map_add_def ClearKeyMapping_def split: option.splits)
qed

lemma ReloadSetKeymaps_in_order:
  assumes "length (All cfg) = NUM_INPUTS cfg"
    and "length (mapping_targets cfg) = NUM_INPUTS cfg"
  shows "ReloadSetKeymaps w cfg m =
           fold (\<lambda>(c, t). SetKeyMapping \<lparr>key_code = c, device_id = keyboard_id w\<rparr> t)
             (configured_bindings cfg) (ClearKeyMapping (keyboard_id w) m)"
proof -
  let ?key = "\<lambda>c. \<lparr>key_code = c, device_id = keyboard_id w\<rparr>"
  have "fold (\<lambda>i. SetKeyMapping (?key (input_mappings cfg (All cfg ! i)))
                 (mapping_targets cfg ! i)) [0..<NUM_INPUTS cfg] =
        fold (\<lambda>(k, t). SetKeyMapping k t)
          (map (\<lambda>i. (?key (input_mappings cfg (All cfg ! i)), mapping_targets cfg ! i))
             [0..<NUM_INPUTS cfg])"
    by (simp add: fold_map comp_def)
  also have "\<dots> = fold (\<lambda>(k, t). SetKeyMapping k t)
          (map (\<lambda>(c, t). (?key c, t)) (configured_bindings cfg))"
    by (simp only: loop_bindings [OF assms] configured_bindings_def)
  also have "\<dots> = fold (\<lambda>(c, t). SetKeyMapping (?key c) t) (configured_bindings cfg)"
    by (simp add: fold_map comp_def case_prod_unfold)
  finally show ?thesis
    by (simp add: ReloadSetKeymaps_def)
qed

lemma device_bindings_reload:
  assumes "length (All cfg) = NUM_INPUTS cfg"
    and "length (mapping_targets cfg) = NUM_INPUTS cfg"
  shows "device_bindings (ReloadSetKeymaps w cfg m) (keyboard_id w) =
           {(c, t). map_of (rev (configured_bindings cfg)) c = Some t}"
  by (simp add: device_bindings_def ReloadSetKeymaps_lookup [OF assms])

text \<open>
  C9 (as claimed): after a reload the table of the device consists exactly of the configured
  bindings. When two logical inputs are configured with the same physical code the second
  \<open>SetKeyMapping\<close> overwrites the first, and the first configured binding is not in the table.
\<close>

theorem reload_same_code_counterexample:
  "(65, ''A'') \<in> set (configured_bindings same_code_inputs)
   \<and> (65, ''A'') \<notin> device_bindings (ReloadSetKeymaps window0 same_code_inputs Map.empty)
        (keyboard_id window0)
   \<and> ReloadSetKeymaps window0 same_code_inputs Map.empty
        \<lparr>key_code = 65, device_id = keyboard_id window0\<rparr> = Some ''B''"
  by (simp add: ReloadSetKeymaps_def window0_def SetKeyMapping_def ClearKeyMapping_def
      same_code_inputs_def configured_bindings_def device_bindings_def numeral_2_eq_2)

text \<open>
  C9 (amended): a reload is the clearing of the device's bindings followed by one
  \<open>SetKeyMapping\<close> per configured logical input, in configuration order. Afterwards the
  table binds, for the device, every configured physical code to the target of the last
  input configured with it and nothing else, whatever the table held before: its bindings
  are among the configured ones, and are exactly the configured ones when the configured
  physical codes are pairwise distinct.
\<close>

theorem ReloadSetKeymaps_table:
  assumes "length (All cfg) = NUM_INPUTS cfg"
    and "length (mapping_targets cfg) = NUM_INPUTS cfg"
  shows "ReloadSetKeymaps w cfg m =
           fold (\<lambda>(c, t). SetKeyMapping \<lparr>key_code = c, device_id = keyboard_id w\<rparr> t)
             (configured_bindings cfg) (ClearKeyMapping (keyboard_id w) m)
         \<and> device_bindings (ReloadSetKeymaps w cfg m) (keyboard_id w) =
             {(c, t). map_of (rev (configured_bindings cfg)) c = Some t}
         \<and> device_bindings (ReloadSetKeymaps w cfg m) (keyboard_id w)
             \<subseteq> set (configured_bindings cfg)
         \<and> (distinct (map fst (configured_bindings cfg)) \<longrightarrow>
             device_bindings (ReloadSetKeymaps w cfg m) (keyboard_id w) =
               set (configured_bindings cfg))"
proof -
  note g = device_bindings_reload [OF assms, of w m]
  have sub: "device_bindings (ReloadSetKeymaps w cfg m) (keyboard_id w)
               \<subseteq> set (configured_bindings cfg)"
    unfolding g by (auto dest: map_of_SomeD)
  have eq: "device_bindings (ReloadSetKeymaps w cfg m) (keyboard_id w) =
              set (configured_bindings cfg)"
    if "distinct (map fst (configured_bindings cfg))"
    unfolding g using that by (auto dest: map_of_SomeD simp: distinct_rev rev_map [symmetric])
  from ReloadSetKeymaps_in_order [OF assms, of w m] g sub eq show ?thesis
    by blast
qed

theorem ReloadSetKeymaps_table_witness:
  "length (All two_inputs) = NUM_INPUTS two_inputs
   \<and> length (mapping_targets two_inputs) = NUM_INPUTS two_inputs
   \<and> distinct (map fst (configured_bindings two_inputs))
   \<and> old_table \<lparr>key_code = 70, device_id = 0\<rparr> = Some ''old''
   \<and> device_bindings (ReloadSetKeymaps window0 two_inputs old_table) (keyboard_id window0) =
       {(65, ''A''), (83, ''B'')}"
proof -
  have h1: "length (All two_inputs) = NUM_INPUTS two_inputs"
    and h2: "length (mapping_targets two_inputs) = NUM_INPUTS two_inputs"
    by (simp_all add: two_inputs_def)
  have d: "distinct (map fst (configured_bindings two_inputs))"
    by (simp add: configured_bindings_def two_inputs_def)
  have s: "set (configured_bindings two_inputs) = {(65, ''A''), (83, ''B'')}"
    by (simp add: configured_bindings_def two_inputs_def)
  from ReloadSetKeymaps_table [OF h1 h2, of window0 old_table] d
  have "device_bindings (ReloadSetKeymaps window0 two_inputs old_table) (keyboard_id window0) =
          set (configured_bindings two_inputs)"
    by blast
  moreover have "old_table \<lparr>key_code = 70, device_id = 0\<rparr> = Some ''old''"
    by (simp add: old_table_def)
  ultimately show ?thesis
    using h1 h2 d s by simp
qed

section \<open>Debug-mode notifications\<close>

lemma notifications_snoc [simp]:
  "notifications (es @ [e]) =
     notifications es @ (if e = DebugModeLeft \<or> e = DebugModeEntered then [e] else [])"
  by (simp add: notifications_def)

lemma notifications_GL [simp]: "notifications (es @ map GL gs) = notifications es"
  by (simp add: notifications_def)

lemma notifications_Nil [simp]: "notifications [] = []"
  by (simp add: notifications_def)

lemma alternation_Left:
  "ns = alternation (length ns) \<Longrightarrow> even (length ns) \<Longrightarrow>
   ns @ [DebugModeLeft] = alternation (Suc (length ns))"
  by simp

lemma alternation_Entered:
  "ns = alternation (length ns) \<Longrightarrow> odd (length ns) \<Longrightarrow>
   ns @ [DebugModeEntered] = alternation (Suc (length ns))"
  by simp

lemma notes_inv_new: "notes_inv (EmuThread_new w n)"
  by (simp add: notes_inv_def EmuThread_new_def)

lemma notes_inv_request: "notes_inv s \<Longrightarrow> notes_inv (request_step r s)"
  by (cases r; cases "pc s") (simp_all add: notes_inv_def notify_all_def)

lemma notes_inv_run: "notes_inv s \<Longrightarrow> notes_inv (run_step cfg s)"
  by (cases "pc s")
     (auto simp: notes_inv_def run_step_def emit_def goto_def MakeCurrent_def
           intro: alternation_Left alternation_Entered)

lemma notes_inv_step: "notes_inv s \<Longrightarrow> notes_inv (step cfg a s)"
  by (cases a) (simp_all add: notes_inv_request notes_inv_run)

lemma notes_inv_exec: "notes_inv s \<Longrightarrow> notes_inv (exec cfg sched s)"
  unfolding exec_def by (induction sched arbitrary: s) (simp_all add: notes_inv_step)

lemma alternating_snoc:
  "alternating (xs @ [x]) = (alternating xs \<and> (xs = [] \<or> last xs \<noteq> x))"
  by (induction xs rule: alternating.induct) auto

lemma length_alternation [simp]: "length (alternation n) = n"
  by (induction n) simp_all

lemma alternating_alternation: "alternating (alternation n)"
proof (induction n)
  case 0
  show ?case by simp
next
  case (Suc n)
  have "alternation n = [] \<or>
        last (alternation n) \<noteq> (if even n then DebugModeLeft else DebugModeEntered)"
    by (cases n) simp_all
  with Suc show ?case
    by (simp add: alternating_snoc)
qed

text \<open>
  What the code does guarantee of the notifications, in every interleaving of requests with
  statements of \<open>run\<close>: they are a prefix of the sequence left, entered, left, entered, ...,
  so no two consecutive ones are of the same kind.
\<close>

lemma notifications_alternate:
  "notifications (calls (exec cfg sched (EmuThread_new w n))) =
     alternation (length (notifications (calls (exec cfg sched (EmuThread_new w n)))))
   \<and> alternating (notifications (calls (exec cfg sched (EmuThread_new w n))))"
proof -
  have "notes_inv (exec cfg sched (EmuThread_new w n))"
    by (rule notes_inv_exec [OF notes_inv_new])
  then have eq: "notifications (calls (exec cfg sched (EmuThread_new w n))) =
     alternation (length (notifications (calls (exec cfg sched (EmuThread_new w n)))))"
    by (simp add: notes_inv_def)
  moreover have "alternating (notifications (calls (exec cfg sched (EmuThread_new w n))))"
    by (subst eq) (rule alternating_alternation)
  ultimately show ?thesis by blast
qed

text \<open>
  C3: in every interleaving of \<open>setRunning\<close> requests with loop iterations,
  \<open>DebugModeEntered\<close> is emitted once per transition from active to inactive and
  \<open>DebugModeLeft\<close> once per transition from inactive to active. The code misses a case. In
  the schedule \<open>missed_pause\<close> emulation is started and the thread runs one iteration, which
  leaves \<open>was_active\<close> true; emulation is paused while the thread is between line 46 and
  the next test of line 39. The thread then finds neither flag set and sleeps in the wait of
  line 60 (after 16 actions), with \<open>was_active\<close> still true and \<open>DebugModeLeft\<close> the last
  notification: the transition to inactive is never announced, although \<open>was_active\<close> is
  there to hold whether the cpu was running during the last iteration (lines 34 to 36) and
  the step branch announces its own return to inactive (lines 54 and 57). When emulation is
  resumed the thread runs again and, \<open>was_active\<close> being true, does not announce that
  either: over two transitions to active and one to inactive it emits one \<open>DebugModeLeft\<close>
  and no \<open>DebugModeEntered\<close>.
\<close>

theorem missed_pause_sleeps_unannounced:
  "pc (exec cfg0 (take 16 missed_pause) (EmuThread_new window0 1)) = L60_blocked
   \<and> \<not> running (exec cfg0 (take 16 missed_pause) (EmuThread_new window0 1))
   \<and> was_active (exec cfg0 (take 16 missed_pause) (EmuThread_new window0 1))
   \<and> notifications (calls (exec cfg0 (take 16 missed_pause) (EmuThread_new window0 1))) =
       [DebugModeLeft]
   \<and> active_to_inactive False (take 16 missed_pause) = 1
   \<and> calls (exec cfg0 missed_pause (EmuThread_new window0 1)) =
       [GL makeCurrent, MicroProfileOnThreadCreate, DebugModeLeft, RunLoop, RunLoop]
   \<and> active_to_inactive False missed_pause = 1
   \<and> inactive_to_active False missed_pause = 2
   \<and> count_list (notifications (calls (exec cfg0 missed_pause (EmuThread_new window0 1))))
        DebugModeEntered = 0
   \<and> count_list (notifications (calls (exec cfg0 missed_pause (EmuThread_new window0 1))))
        DebugModeLeft = 1"
  by (simp add: missed_pause_def run_eval notifications_def)

section \<open>Single steps\<close>

lemma count_SingleStep_GL [simp]: "count_list (map GL gs) SingleStep = 0"
  by (induction gs) simp_all

lemma steps_inv_new: "steps_inv 0 (EmuThread_new w n)"
  by (simp add: steps_inv_def step_credit_def EmuThread_new_def)

lemma steps_inv_request:
  "steps_inv k s \<Longrightarrow> steps_inv (k + (if r = ExecStep then 1 else 0)) (request_step r s)"
  by (cases r) (auto simp: steps_inv_def step_credit_def notify_all_def)

lemma steps_inv_run: "steps_inv k s \<Longrightarrow> steps_inv k (run_step cfg s)"
  by (cases "pc s")
     (auto simp: steps_inv_def step_credit_def run_step_def emit_def goto_def MakeCurrent_def)

lemma steps_inv_step:
  "steps_inv k s \<Longrightarrow>
   steps_inv (k + (if a = Request ExecStep then 1 else 0)) (step cfg a s)"
proof (cases a)
  case (Request r)
  then show "steps_inv k s \<Longrightarrow> ?thesis"
    using steps_inv_request [of k s r] by auto
next
  case Sched
  then show "steps_inv k s \<Longrightarrow> ?thesis"
    by (simp add: steps_inv_run)
qed

lemma steps_inv_exec:
  "steps_inv k s \<Longrightarrow> steps_inv (k + count_list sched (Request ExecStep)) (exec cfg sched s)"
proof (induction sched arbitrary: k s)
  case Nil
  then show ?case by simp
next
  case (Cons a sched)
  have "steps_inv (k + (if a = Request ExecStep then 1 else 0)) (step cfg a s)"
    by (rule steps_inv_step [OF Cons.prems])
  from Cons.IH [OF this] have
    "steps_inv (k + (if a = Request ExecStep then 1 else 0) + count_list sched (Request ExecStep))
       (exec cfg (a # sched) s)"
    by (simp only: exec_Cons)
  moreover have "k + (if a = Request ExecStep then 1 else 0) + count_list sched (Request ExecStep)
      = k + count_list (a # sched) (Request ExecStep)"
    by simp
  ultimately show ?case by (simp only:)
qed

lemma SingleStep_le_requests:
  "count_list (calls (exec cfg sched (EmuThread_new w n))) SingleStep
     \<le> count_list sched (Request ExecStep)"
  using steps_inv_exec [OF steps_inv_new [of w n], where sched = sched and cfg = cfg]
  by (simp add: steps_inv_def)

lemma SingleStep_only_at_L53:
  "count_list (calls (step cfg a s)) SingleStep =
     count_list (calls s) SingleStep + (if a = Sched \<and> pc s = L53_SingleStep then 1 else 0)"
proof (cases a)
  case (Request r)
  then show ?thesis by (cases r) (simp_all add: notify_all_def)
next
  case Sched
  then show ?thesis
    by (cases "pc s") (simp_all add: run_step_def emit_def goto_def MakeCurrent_def)
qed

lemma L53_only_after_clear:
  "(pc (step cfg a s) = L53_SingleStep \<and> pc s \<noteq> L53_SingleStep) =
     (a = Sched \<and> pc s = L52_exec_step_false)"
proof (cases a)
  case (Request r)
  then show ?thesis by (cases r) (auto simp: notify_all_def)
next
  case Sched
  then show ?thesis
    by (cases "pc s") (auto simp: run_step_def emit_def goto_def)
qed

lemma cleared_only_at_L52:
  "(exec_step s \<and> \<not> exec_step (step cfg a s)) =
     (a = Sched \<and> pc s = L52_exec_step_false \<and> exec_step s)"
proof (cases a)
  case (Request r)
  then show ?thesis by (cases r) (auto simp: notify_all_def)
next
  case Sched
  then show ?thesis
    by (cases "pc s") (auto simp: run_step_def emit_def goto_def)
qed

lemma idle_request_steps:
  assumes "pc s = L60_blocked" and "\<not> running s" and "\<not> stop_run s"
  shows "calls (exec cfg [Request ExecStep, Sched, Sched, Sched, Sched, Sched, Sched, Sched] s) =
           calls s @ (if was_active s then [] else [DebugModeLeft]) @ [SingleStep]"
  using assms by (simp add: notify_all_def run_step_def emit_def goto_def)

text \<open>
  C4 (as claimed): exactly one single-step invocation per request. The request is a flag:
  two requests made before the thread reads it are served by one \<open>SingleStep\<close>, after which
  the flag is clear and the thread sleeps in the wait.
\<close>

theorem two_requests_counterexample:
  "count_list two_requests (Request ExecStep) = 2
   \<and> count_list (calls (exec cfg0 two_requests (EmuThread_new window0 1))) SingleStep = 1
   \<and> pc (exec cfg0 two_requests (EmuThread_new window0 1)) = L60_blocked
   \<and> \<not> exec_step (exec cfg0 two_requests (EmuThread_new window0 1))"
  by (simp add: two_requests_def EmuThread_new_def run_step_def emit_def goto_def
      notify_all_def MakeCurrent_def cfg0_def)

text \<open>
  C4 (amended): in every interleaving the number of \<open>SingleStep\<close> invocations never exceeds
  the number of requests; \<open>SingleStep\<close> is invoked by the statement of line 53 only, which
  is reached only from line 52, the one statement that clears the flag; and a request made
  while the thread sleeps in the wait with running and stop both false is served, when the
  thread runs undisturbed, by the emission of \<open>DebugModeLeft\<close> (unless \<open>was_active\<close>) and one
  \<open>SingleStep\<close>.
\<close>

theorem single_step_requests:
  "count_list (calls (exec cfg sched (EmuThread_new w n))) SingleStep
     \<le> count_list sched (Request ExecStep)
   \<and> count_list (calls (step cfg a s)) SingleStep =
       count_list (calls s) SingleStep + (if a = Sched \<and> pc s = L53_SingleStep then 1 else 0)
   \<and> (pc (step cfg a s) = L53_SingleStep \<and> pc s \<noteq> L53_SingleStep) =
       (a = Sched \<and> pc s = L52_exec_step_false)
   \<and> (exec_step s \<and> \<not> exec_step (step cfg a s)) =
       (a = Sched \<and> pc s = L52_exec_step_false \<and> exec_step s)
   \<and> (pc s = L60_blocked \<and> \<not> running s \<and> \<not> stop_run s \<longrightarrow>
       calls (exec cfg [Request ExecStep, Sched, Sched, Sched, Sched, Sched, Sched, Sched] s) =
         calls s @ (if was_active s then [] else [DebugModeLeft]) @ [SingleStep])"
  using SingleStep_le_requests [where cfg = cfg and sched = sched and w = w and n = n]
    SingleStep_only_at_L53 [where cfg = cfg and a = a and s = s]
    L53_only_after_clear [where cfg = cfg and a = a and s = s]
    cleared_only_at_L52 [where cfg = cfg and a = a and s = s]
    idle_request_steps [where cfg = cfg and s = s]
  by blast

theorem single_step_requests_witness:
  "pc idle = L60_blocked \<and> \<not> running idle \<and> \<not> stop_run idle
   \<and> calls (exec cfg0 [Request ExecStep, Sched, Sched, Sched, Sched, Sched, Sched, Sched] idle) =
       [GL makeCurrent, MicroProfileOnThreadCreate, DebugModeLeft, SingleStep]"
proof -
  have h: "pc idle = L60_blocked \<and> \<not> running idle \<and> \<not> stop_run idle"
    and c: "calls idle = [GL makeCurrent, MicroProfileOnThreadCreate]"
    and w: "\<not> was_active idle"
    by (simp_all add: idle_def EmuThread_new_def run_step_def emit_def goto_def
        MakeCurrent_def cfg0_def)
  from single_step_requests [where cfg = cfg0 and sched = "[]" and w = window0 and n = 0 and a = Sched
      and s = idle] h c w show ?thesis
    by simp
qed

section \<open>The idle wait\<close>

lemma wait_step:
  "pc s = L60_wait \<Longrightarrow>
   run_step cfg s = goto (if wait_predicate s then L38_while else L60_blocked) s"
  by (simp add: run_step_def wait_predicate_def)

lemma goto_neq: "l \<noteq> pc s \<Longrightarrow> goto l s \<noteq> s"
  by (auto simp: goto_def dest: arg_cong [where f = pc])

lemma pc_run_step_neq:
  "pc s \<noteq> L60_blocked \<Longrightarrow> pc s \<noteq> Returned \<Longrightarrow> pc (run_step cfg s) \<noteq> pc s"
  by (cases "pc s") (simp_all add: run_step_def goto_def emit_def)

lemma sole_suspension:
  "(run_step cfg s = s) = (pc s = L60_blocked \<or> pc s = Returned)"
proof
  assume "run_step cfg s = s"
  then have "pc (run_step cfg s) = pc s" by simp
  then show "pc s = L60_blocked \<or> pc s = Returned"
    using pc_run_step_neq [of s cfg] by blast
next
  assume "pc s = L60_blocked \<or> pc s = Returned"
  then show "run_step cfg s = s"
    by (auto simp: run_step_def)
qed

lemma wake_rechecks: "pc s = L60_blocked \<Longrightarrow> pc (request_step r s) = L60_wait"
  by (cases r) (simp_all add: notify_all_def)

lemma wait_entered:
  "(pc (step cfg a s) = L60_wait \<and> \<not> in_wait s) =
     (a = Sched \<and> pc s = L48_if_exec_step \<and> \<not> exec_step s)"
proof (cases a)
  case (Request r)
  then show ?thesis by (cases r) (auto simp: notify_all_def in_wait_def)
next
  case Sched
  then show ?thesis
    by (cases "pc s") (auto simp: run_step_def emit_def goto_def in_wait_def)
qed

lemma wait_left:
  "(in_wait s \<and> \<not> in_wait (step cfg a s)) =
     (a = Sched \<and> pc s = L60_wait \<and> wait_predicate s)"
proof (cases a)
  case (Request r)
  then show ?thesis by (cases r) (auto simp: notify_all_def in_wait_def)
next
  case Sched
  then show ?thesis
    by (cases "pc s") (auto simp: run_step_def emit_def goto_def in_wait_def wait_predicate_def)
qed

lemma blocked_inv_step: "blocked_inv s \<Longrightarrow> blocked_inv (step cfg a s)"
proof (cases a)
  case (Request r)
  then show "blocked_inv s \<Longrightarrow> ?thesis"
    by (cases r) (auto simp: blocked_inv_def notify_all_def)
next
  case Sched
  then show "blocked_inv s \<Longrightarrow> ?thesis"
    by (cases "pc s")
       (auto simp: blocked_inv_def run_step_def goto_def emit_def wait_predicate_def)
qed

lemma blocked_inv_exec: "blocked_inv s \<Longrightarrow> blocked_inv (exec cfg sched s)"
  by (induction sched arbitrary: s) (simp_all add: blocked_inv_step)

lemma blocked_inv_new: "blocked_inv (EmuThread_new w n)"
  by (simp add: blocked_inv_def EmuThread_new_def)

lemma block_progress:
  assumes "\<not> wait_predicate s" and "\<not> exiting (pc s)" and "pc s \<noteq> L60_blocked"
  shows "\<not> wait_predicate (run_step cfg s) \<and> \<not> exiting (pc (run_step cfg s))
         \<and> Suc (steps_to_block (pc (run_step cfg s))) = steps_to_block (pc s)"
  using assms
  by (cases "pc s")
     (simp_all add: run_step_def goto_def emit_def wait_predicate_def exiting_def)

lemma idle_reaches_block:
  "\<not> wait_predicate s \<Longrightarrow> \<not> exiting (pc s) \<Longrightarrow> steps_to_block (pc s) = k \<Longrightarrow>
   pc (exec cfg (replicate k Sched) s) = L60_blocked"
proof (induction k arbitrary: s)
  case 0
  then show ?case
    by (cases "pc s") (simp_all add: exiting_def)
next
  case (Suc k)
  then have nb: "pc s \<noteq> L60_blocked" by auto
  from block_progress [OF Suc.prems(1,2) nb, of cfg] Suc.prems(3)
  have "\<not> wait_predicate (run_step cfg s)" and "\<not> exiting (pc (run_step cfg s))"
    and "steps_to_block (pc (run_step cfg s)) = k"
    by simp_all
  from Suc.IH [OF this] show ?case by simp
qed

lemma steps_to_block_le: "steps_to_block l \<le> 10"
  by (cases l) simp_all

lemma blocked_stays: "pc s = L60_blocked \<Longrightarrow> exec cfg (replicate m Sched) s = s"
  by (induction m) (simp_all add: run_step_def)

lemma idle_iteration:
  "pc s = L38_while \<Longrightarrow> \<not> wait_predicate s \<Longrightarrow>
   exec cfg [Sched, Sched, Sched, Sched] s = s\<lparr>pc := L60_blocked\<rparr>"
  by (simp add: run_step_def goto_def wait_predicate_def)

lemma spurious_wake_sleeps_again:
  "pc s = L60_blocked \<Longrightarrow> \<not> wait_predicate s \<Longrightarrow>
   exec cfg [Request SpuriousWake, Sched] s = s"
  by (simp add: run_step_def goto_def wait_predicate_def notify_all_def)

text \<open>
  C7: at the wait the thread blocks exactly when the predicate (running, step requested or
  stop requested) is false, and otherwise goes back to the loop test; a blocked thread has
  no step of its own, and blocked and returned are the only states without one; every wake
  (a request or a spurious wake) leads to a new evaluation of the predicate; the wait is
  entered only from the test of line 48 when no step is requested, and is left only by an
  evaluation that finds the predicate true; in every interleaving the predicate is false
  whenever the thread is blocked. Conversely an idle loop blocks: from every statement
  before the exit, when no flag is set and none is written, the thread sleeps in the wait
  after at most ten statements (from the loop test after four, which change nothing but the
  program counter) and executes nothing more, however often it is scheduled; a spurious wake
  costs one evaluation of the predicate and puts it back to sleep.
\<close>

theorem wait_is_sole_suspension:
  "(pc s = L60_wait \<longrightarrow>
      run_step cfg s = goto (if wait_predicate s then L38_while else L60_blocked) s)
   \<and> (run_step cfg s = s) = (pc s = L60_blocked \<or> pc s = Returned)
   \<and> (pc s = L60_blocked \<longrightarrow> pc (request_step r s) = L60_wait)
   \<and> (pc (step cfg a s) = L60_wait \<and> \<not> in_wait s) =
       (a = Sched \<and> pc s = L48_if_exec_step \<and> \<not> exec_step s)
   \<and> (in_wait s \<and> \<not> in_wait (step cfg a s)) =
       (a = Sched \<and> pc s = L60_wait \<and> wait_predicate s)
   \<and> (pc (exec cfg sched (EmuThread_new w n)) = L60_blocked \<longrightarrow>
       \<not> wait_predicate (exec cfg sched (EmuThread_new w n)))
   \<and> (\<not> wait_predicate s \<and> \<not> exiting (pc s) \<longrightarrow>
       pc (exec cfg (replicate (steps_to_block (pc s)) Sched) s) = L60_blocked
       \<and> steps_to_block (pc s) \<le> 10)
   \<and> (pc s = L38_while \<and> \<not> wait_predicate s \<longrightarrow>
       exec cfg [Sched, Sched, Sched, Sched] s = s\<lparr>pc := L60_blocked\<rparr>)
   \<and> (pc s = L60_blocked \<longrightarrow> exec cfg (replicate m Sched) s = s)
   \<and> (pc s = L60_blocked \<and> \<not> wait_predicate s \<longrightarrow>
       exec cfg [Request SpuriousWake, Sched] s = s)"
  using wait_step [of s cfg] sole_suspension [of cfg s] wake_rechecks [of s r]
    wait_entered [of cfg a s] wait_left [of s cfg a]
    blocked_inv_exec [OF blocked_inv_new [of w n], where cfg = cfg and sched = sched]
    idle_reaches_block [where s = s and cfg = cfg, OF _ _ refl]
    steps_to_block_le [of "pc s"] idle_iteration [of s cfg] blocked_stays [of s cfg m]
    spurious_wake_sleeps_again [of s cfg]
  unfolding blocked_inv_def by blast

theorem wait_is_sole_suspension_witness:
  "pc idle = L60_blocked \<and> \<not> wait_predicate idle
   \<and> pc (request_step SpuriousWake idle) = L60_wait
   \<and> pc (run_step cfg0 (request_step SpuriousWake idle)) = L60_blocked
   \<and> pc (request_step ExecStep idle) = L60_wait
   \<and> pc (run_step cfg0 (request_step ExecStep idle)) = L38_while
   \<and> exec cfg0 (replicate 5 Sched) idle = idle
   \<and> exec cfg0 [Request SpuriousWake, Sched] idle = idle
   \<and> \<not> wait_predicate paused_in_RunLoop \<and> \<not> exiting (pc paused_in_RunLoop)
   \<and> steps_to_block (pc paused_in_RunLoop) = 8
   \<and> pc (exec cfg0 (replicate 8 Sched) paused_in_RunLoop) = L60_blocked
   \<and> pc (exec cfg0 [Sched, Sched, Sched, Sched] (idle\<lparr>pc := L38_while\<rparr>)) = L60_blocked"
proof -
  have b: "pc idle = L60_blocked"
    by (simp add: idle_def run_eval)
  have e: "idle = exec cfg0 [Sched, Sched, Sched, Sched, Sched, Sched, Sched, Sched]
                    (EmuThread_new window0 1)"
    by (simp only: idle_def)
  have w1: "pc (request_step SpuriousWake idle) = L60_wait"
    and w2: "pc (request_step ExecStep idle) = L60_wait"
    using wait_is_sole_suspension [where s = idle and r = SpuriousWake]
      wait_is_sole_suspension [where s = idle and r = ExecStep] b
    by blast+
  have p: "\<not> wait_predicate idle"
    using wait_is_sole_suspension [where cfg = cfg0 and w = window0 and n = 1
        and sched = "[Sched, Sched, Sched, Sched, Sched, Sched, Sched, Sched]"] b
    unfolding e [symmetric] by blast
  have p1: "\<not> wait_predicate (request_step SpuriousWake idle)"
    and p2: "wait_predicate (request_step ExecStep idle)"
    using p by (simp_all add: wait_predicate_def notify_all_def)
  have r1: "pc (run_step cfg0 (request_step SpuriousWake idle)) = L60_blocked"
    using wait_is_sole_suspension [where s = "request_step SpuriousWake idle" and cfg = cfg0]
      w1 p1
    by (simp add: goto_def)
  have r2: "pc (run_step cfg0 (request_step ExecStep idle)) = L38_while"
    using wait_is_sole_suspension [where s = "request_step ExecStep idle" and cfg = cfg0]
      w2 p2
    by (simp add: goto_def)
  have s1: "exec cfg0 (replicate 5 Sched) idle = idle"
    and s2: "exec cfg0 [Request SpuriousWake, Sched] idle = idle"
    using wait_is_sole_suspension [where s = idle and cfg = cfg0 and m = 5] b p
    by blast+
  have q: "\<not> wait_predicate paused_in_RunLoop" "\<not> exiting (pc paused_in_RunLoop)"
    "steps_to_block (pc paused_in_RunLoop) = 8"
    by (simp_all add: paused_in_RunLoop_def run_eval wait_predicate_def exiting_def)
  have "pc (exec cfg0 (replicate (steps_to_block (pc paused_in_RunLoop)) Sched)
              paused_in_RunLoop) = L60_blocked"
    using wait_is_sole_suspension [where s = paused_in_RunLoop and cfg = cfg0] q(1,2)
    by blast
  then have t1: "pc (exec cfg0 (replicate 8 Sched) paused_in_RunLoop) = L60_blocked"
    by (simp only: q(3))
  have l: "pc (idle\<lparr>pc := L38_while\<rparr>) = L38_while"
    "\<not> wait_predicate (idle\<lparr>pc := L38_while\<rparr>)"
    using p by (simp_all add: wait_predicate_def)
  have "exec cfg0 [Sched, Sched, Sched, Sched] (idle\<lparr>pc := L38_while\<rparr>) =
          idle\<lparr>pc := L38_while\<rparr>\<lparr>pc := L60_blocked\<rparr>"
    using wait_is_sole_suspension [where s = "idle\<lparr>pc := L38_while\<rparr>" and cfg = cfg0] l
    by blast
  then have t2: "pc (exec cfg0 [Sched, Sched, Sched, Sched] (idle\<lparr>pc := L38_while\<rparr>)) =
                   L60_blocked"
    by simp
  from b p w1 r1 w2 r2 s1 s2 q t1 t2 show ?thesis
    by blast
qed

section \<open>Leaving the loop\<close>

lemma exit_inv_new: "exit_inv cfg (EmuThread_new w n)"
  by (simp add: exit_inv_def EmuThread_new_def)

lemma exit_inv_request: "exit_inv cfg s \<Longrightarrow> exit_inv cfg (request_step r s)"
  by (cases r; cases "pc s") (simp_all add: exit_inv_def notify_all_def)

lemma Shutdown_notin_GL [simp]: "Shutdown \<notin> set (map GL gs)"
  by auto

lemma exit_inv_run: "exit_inv cfg s \<Longrightarrow> exit_inv cfg (run_step cfg s)"
  by (cases "pc s")
     (auto simp: exit_inv_def run_step_def emit_def goto_def MakeCurrent_def moveContext_def
        exit_calls_def split: option.splits)

lemma exit_inv_step: "exit_inv cfg s \<Longrightarrow> exit_inv cfg (step cfg a s)"
  by (cases a) (simp_all add: exit_inv_request exit_inv_run)

lemma exit_inv_exec: "exit_inv cfg s \<Longrightarrow> exit_inv cfg (exec cfg sched s)"
  by (induction sched arbitrary: s) (simp_all add: exit_inv_step)

lemma Shutdown_notin_exit_calls [simp]: "Shutdown \<notin> set (exit_calls cfg)"
  by (simp add: exit_calls_def)

lemma Shutdown_once:
  "exit_inv cfg s \<Longrightarrow>
   count_list (calls s) Shutdown =
     (if pc s = L68_MicroProfileOnThreadExit \<or> pc s = L71_moveContext \<or> pc s = Returned
      then 1 else 0)"
  by (cases "pc s") (auto simp: exit_inv_def count_list_0_iff)

lemma exit_order:
  "exit_inv cfg s \<Longrightarrow> pc s = Returned \<Longrightarrow>
   \<exists>pre. calls s = pre @ Shutdown # exit_calls cfg \<and> Shutdown \<notin> set pre"
  by (simp add: exit_inv_def)

lemma loop_exit:
  "(pc (step cfg a s) = L65_Shutdown \<and> pc s \<noteq> L65_Shutdown) =
     (a = Sched \<and> pc s = L38_while \<and> stop_run s)"
proof (cases a)
  case (Request r)
  then show ?thesis by (cases r) (auto simp: notify_all_def)
next
  case Sched
  then show ?thesis
    by (cases "pc s") (auto simp: run_step_def emit_def goto_def)
qed

lemma exiting_step:
  "exiting (pc s) \<Longrightarrow>
   exiting (pc (step cfg a s)) \<and>
   exit_rank (pc (step cfg a s)) = exit_rank (pc s) - (if a = Sched then 1 else 0)"
proof (cases a)
  case (Request r)
  then show "exiting (pc s) \<Longrightarrow> ?thesis"
    by (cases r) (auto simp: notify_all_def exiting_def)
next
  case Sched
  then show "exiting (pc s) \<Longrightarrow> ?thesis"
    by (auto simp: run_step_def emit_def goto_def exiting_def)
qed

lemma exiting_exec:
  "exiting (pc s) \<Longrightarrow>
   exiting (pc (exec cfg sched s)) \<and>
   exit_rank (pc (exec cfg sched s)) = exit_rank (pc s) - count_list sched Sched"
proof (induction sched arbitrary: s)
  case Nil
  then show ?case by simp
next
  case (Cons a sched)
  from exiting_step [OF Cons.prems, of cfg a] Cons.IH [of "step cfg a s"]
  show ?case by auto
qed

lemma exit_completes:
  assumes "pc s = L65_Shutdown" and "3 \<le> count_list sched Sched"
  shows "pc (exec cfg sched s) = Returned"
proof -
  from assms(1) have "exiting (pc s)" by (simp add: exiting_def)
  from exiting_exec [OF this, of cfg sched] assms
  have "exiting (pc (exec cfg sched s))" and "exit_rank (pc (exec cfg sched s)) = 0"
    by simp_all
  then show ?thesis
    by (auto simp: exiting_def)
qed

text \<open>
  C8 (as claimed): on every exit of the loop the context is released and migrated back to
  the presentation thread after the shutdown. In a build where the condition of line 127 is
  false \<open>moveContext\<close> only releases the context: the run returns without any move.
\<close>

theorem run_exit_no_move_counterexample:
  "pc (exec cfg_qt4 (stop_schedule @ [Sched, Sched, Sched]) (EmuThread_new window0 1)) =
     Returned
   \<and> calls (exec cfg_qt4 (stop_schedule @ [Sched, Sched, Sched]) (EmuThread_new window0 1)) =
       [GL makeCurrent, MicroProfileOnThreadCreate, Shutdown, MicroProfileOnThreadExit,
        GL doneCurrent]"
  by (simp add: stop_schedule_def cfg_qt4_def EmuThread_new_def run_step_def emit_def
      goto_def notify_all_def MakeCurrent_def moveContext_def)

text \<open>
  C8 (amended): in every interleaving \<open>Shutdown\<close> has been invoked exactly once after line
  65 and never before; when \<open>run\<close> has returned, its events end with \<open>Shutdown\<close>, the
  profiler hook where it is compiled, the release of the context and, in a build with
  \<open>QT_VERSION > QT_VERSION_CHECK(5, 0, 0)\<close>, its move to the application thread, in this
  order; the loop is left only by the loop test that observes the stop flag, to line 65;
  and from line 65 any three statements of the thread, whatever requests come in between,
  complete the exit.
\<close>

theorem run_exit_order:
  "count_list (calls (exec cfg sched (EmuThread_new w n))) Shutdown =
     (if pc (exec cfg sched (EmuThread_new w n)) = L68_MicroProfileOnThreadExit
         \<or> pc (exec cfg sched (EmuThread_new w n)) = L71_moveContext
         \<or> pc (exec cfg sched (EmuThread_new w n)) = Returned then 1 else 0)
   \<and> (pc (exec cfg sched (EmuThread_new w n)) = Returned \<longrightarrow>
        (\<exists>pre. calls (exec cfg sched (EmuThread_new w n)) =
                 pre @ Shutdown #
                 (if microprofile_enabled cfg then [MicroProfileOnThreadExit] else []) @
                 GL doneCurrent # (if qt5 cfg then [GL (moveToThread AppThread)] else [])
               \<and> Shutdown \<notin> set pre))
   \<and> (pc (step cfg a s) = L65_Shutdown \<and> pc s \<noteq> L65_Shutdown) =
       (a = Sched \<and> pc s = L38_while \<and> stop_run s)
   \<and> (pc s = L65_Shutdown \<and> 3 \<le> count_list sched' Sched \<longrightarrow>
        pc (exec cfg sched' s) = Returned)"
proof -
  have inv: "exit_inv cfg (exec cfg sched (EmuThread_new w n))"
    by (rule exit_inv_exec [OF exit_inv_new])
  from Shutdown_once [OF inv] exit_order [OF inv, unfolded exit_calls_def]
    loop_exit [of cfg a s] exit_completes [of s sched' cfg]
  show ?thesis by blast
qed

theorem run_exit_order_witness:
  "pc at_exit = L65_Shutdown
   \<and> 3 \<le> count_list [Sched, Request (SetRunning True), Sched, Sched] Sched
   \<and> pc (exec cfg0 (stop_schedule @ [Sched, Request (SetRunning True), Sched, Sched])
          (EmuThread_new window0 1)) = Returned
   \<and> (\<exists>pre. calls (exec cfg0 (stop_schedule @ [Sched, Request (SetRunning True), Sched, Sched])
                 (EmuThread_new window0 1)) =
               pre @ [Shutdown, MicroProfileOnThreadExit, GL doneCurrent,
                      GL (moveToThread AppThread)]
             \<and> Shutdown \<notin> set pre)
   \<and> calls (exec cfg0 (stop_schedule @ [Sched, Request (SetRunning True), Sched, Sched])
          (EmuThread_new window0 1)) =
       [GL makeCurrent, MicroProfileOnThreadCreate, Shutdown, MicroProfileOnThreadExit,
        GL doneCurrent, GL (moveToThread AppThread)]"
proof -
  let ?rest = "[Sched, Request (SetRunning True), Sched, Sched]"
  have a: "pc at_exit = L65_Shutdown"
    by (simp add: at_exit_def stop_schedule_def run_eval)
  have c: "3 \<le> count_list ?rest Sched"
    by simp
  have r: "pc (exec cfg0 ?rest at_exit) = Returned"
    using run_exit_order [where s = at_exit and cfg = cfg0 and sched' = ?rest] a c
    by blast
  then have r': "pc (exec cfg0 (stop_schedule @ ?rest) (EmuThread_new window0 1)) = Returned"
    by (simp only: exec_append at_exit_def)
  have "\<exists>pre. calls (exec cfg0 (stop_schedule @ ?rest) (EmuThread_new window0 1)) =
                pre @ Shutdown #
                (if microprofile_enabled cfg0 then [MicroProfileOnThreadExit] else []) @
                GL doneCurrent # (if qt5 cfg0 then [GL (moveToThread AppThread)] else [])
              \<and> Shutdown \<notin> set pre"
    using run_exit_order [where cfg = cfg0 and sched = "stop_schedule @ ?rest" and w = window0
        and n = 1] r'
    by blast
  then have o: "\<exists>pre. calls (exec cfg0 (stop_schedule @ ?rest) (EmuThread_new window0 1)) =
                  pre @ [Shutdown, MicroProfileOnThreadExit, GL doneCurrent,
                         GL (moveToThread AppThread)]
                \<and> Shutdown \<notin> set pre"
    by (simp add: cfg0_def)
  have "calls (exec cfg0 (stop_schedule @ ?rest) (EmuThread_new window0 1)) =
       [GL makeCurrent, MicroProfileOnThreadCreate, Shutdown, MicroProfileOnThreadExit,
        GL doneCurrent, GL (moveToThread AppThread)]"
    by (simp add: stop_schedule_def run_eval)
  with a c r' o show ?thesis by blast
qed

section \<open>The reset of the stop flag\<close>

lemma requests_before_loop:
  "pc s \<noteq> L60_blocked \<Longrightarrow>
   pc (exec cfg (map Request rs) s) = pc s \<and>
   calls (exec cfg (map Request rs) s) = calls s"
proof (induction rs arbitrary: s)
  case Nil
  show ?case by simp
next
  case (Cons r rs)
  have "pc (request_step r s) = pc s \<and> calls (request_step r s) = calls s"
    using Cons.prems by (cases r) (simp_all add: notify_all_def)
  with Cons.IH [of "request_step r s"] Cons.prems show ?case by simp
qed

lemma reset_unconditional:
  "pc s = L32_stop_run_false \<Longrightarrow>
   \<not> stop_run (run_step cfg s) \<and> pc (run_step cfg s) = L37_was_active_false"
  by (simp add: run_step_def goto_def)

text \<open>
  C10 (as claimed): a stop requested after the construction and before the loop begins is
  discarded, and the loop is entered. The reset is the statement of line 32; a stop
  requested after it, before the first loop test of line 38, is read by that test: the loop
  body is never entered and \<open>run\<close> shuts the machine down and returns.
\<close>

theorem late_stop_counterexample:
  "pc (exec cfg0 late_stop (EmuThread_new window0 1)) = Returned
   \<and> calls (exec cfg0 late_stop (EmuThread_new window0 1)) =
       [GL makeCurrent, MicroProfileOnThreadCreate, Shutdown, MicroProfileOnThreadExit,
        GL doneCurrent, GL (moveToThread AppThread)]
   \<and> pc (exec cfg0 (take 5 late_stop) (EmuThread_new window0 1)) = L38_while
   \<and> pc (exec cfg0 (take 6 late_stop) (EmuThread_new window0 1)) = L65_Shutdown"
  by (simp add: late_stop_def run_eval)

text \<open>
  C10 (amended): every execution of \<open>run\<close> resets the stop flag before the loop, whatever its
  value: whatever requests (stops included) are made after the construction and before the
  statement of line 32 executes, \<open>stop_run\<close> is false afterwards and, the thread running on
  to the first loop test, the loop body is entered.
\<close>

theorem stop_before_reset_discarded:
  "pc (exec cfg (map Request rs0 @ Sched # map Request rs1 @ Sched # map Request rs2 @
                 [Sched, Sched, Sched]) (EmuThread_new w n)) = L39_if_running
   \<and> \<not> stop_run (exec cfg (map Request rs0 @ Sched # map Request rs1 @ Sched #
                 map Request rs2 @ [Sched, Sched, Sched]) (EmuThread_new w n))
   \<and> calls (exec cfg (map Request rs0 @ Sched # map Request rs1 @ Sched #
                 map Request rs2 @ [Sched, Sched, Sched]) (EmuThread_new w n)) =
       [GL makeCurrent, MicroProfileOnThreadCreate]"
proof -
  define s0 where "s0 = exec cfg (map Request rs0) (EmuThread_new w n)"
  define s1 where "s1 = exec cfg (map Request rs1) (run_step cfg s0)"
  define s2 where "s2 = exec cfg (map Request rs2) (run_step cfg s1)"
  have p0: "pc s0 = L28_MakeCurrent" and c0: "calls s0 = []"
    unfolding s0_def using requests_before_loop [of "EmuThread_new w n" cfg rs0]
    by (simp_all add: EmuThread_new_def)
  have p1: "pc s1 = L30_MicroProfileOnThreadCreate" and c1: "calls s1 = [GL makeCurrent]"
    unfolding s1_def using requests_before_loop [of "run_step cfg s0" cfg rs1] p0 c0
    by (simp_all add: run_step_def goto_def MakeCurrent_def)
  have p2: "pc s2 = L32_stop_run_false"
    and c2: "calls s2 = [GL makeCurrent, MicroProfileOnThreadCreate]"
    unfolding s2_def using requests_before_loop [of "run_step cfg s1" cfg rs2] p1 c1
    by (simp_all add: run_step_def goto_def emit_def)
  have e: "exec cfg (map Request rs0 @ Sched # map Request rs1 @ Sched # map Request rs2 @
                 [Sched, Sched, Sched]) (EmuThread_new w n) =
           run_step cfg (run_step cfg (run_step cfg s2))"
    by (simp add: exec_append s0_def s1_def s2_def)
  show ?thesis
    unfolding e using p2 c2 by (simp add: run_step_def goto_def)
qed



end
